theory Spec2Isabelle
  imports Main "HOL-Library.Multiset" "HOL-Library.Sublist"
begin

section \<open>Data model\<close>

text \<open>
  A LangChain \<open>Document\<close>, as both retrievers return it and as the splitter
  produces it: the text (\<open>page_content\<close>) and the source metadata (a dict of
  origin file, page number, and so on, kept here as an association list).
\<close>

record chunk =
  page_content :: string
  metadata :: "(string \<times> string) list"

text \<open>
  A retriever is used through \<open>invoke(query)\<close> only; it gives the ranked
  documents of that retriever for the query.
\<close>

type_synonym retriever = "string \<Rightarrow> chunk list"

text \<open>
  Exceptions that reach the functions modelled here: the builtin
  \<open>FileNotFoundError\<close> of \<open>open\<close>, and whatever a library call raises
  (its message kept).
\<close>

datatype exn = FileNotFoundError | LibraryError string

text \<open>
  Calls to the two models whose invocation the properties talk about: a batch
  handed to the cross-encoder's \<open>predict\<close>, and a prompt handed to the
  chat model.
\<close>

datatype event = Predict "(string \<times> string) list" | Complete string

section \<open>rag\_pipeline.py\<close>

subsection \<open>The dict of \<open>_hybrid_search\<close>\<close>

text \<open>
  A Python dict keeps its keys in insertion order. \<open>d[k] = v\<close> on a key that
  is present replaces the value and leaves the key where it is; on an absent
  key it appends the entry.
\<close>

fun dict_setitem :: "'k \<Rightarrow> 'v \<Rightarrow> ('k \<times> 'v) list \<Rightarrow> ('k \<times> 'v) list" where
  "dict_setitem k v [] = [(k, v)]"
| "dict_setitem k v ((k', v') # d) =
     (if k' = k then (k', v) # d else (k', v') # dict_setitem k v d)"

definition dict_values :: "('k \<times> 'v) list \<Rightarrow> 'v list" where
  "dict_values d = map snd d"

text \<open>
  The loop \<open>for doc in all_docs: unique_docs[doc.page_content] = doc\<close>, with
  the dict as accumulator.
\<close>

fun unique_docs_loop :: "chunk list \<Rightarrow> (string \<times> chunk) list \<Rightarrow> (string \<times> chunk) list" where
  "unique_docs_loop [] unique_docs = unique_docs"
| "unique_docs_loop (doc # docs) unique_docs =
     unique_docs_loop docs (dict_setitem (page_content doc) doc unique_docs)"

text \<open>\<open>_hybrid_search(query, chroma_retriever, bm25_retriever)\<close>.\<close>

definition hybrid_search :: "string \<Rightarrow> retriever \<Rightarrow> retriever \<Rightarrow> chunk list" where
  "hybrid_search query chroma_retriever bm25_retriever =
     (let chroma_docs = chroma_retriever query;
          bm25_docs = bm25_retriever query;
          all_docs = chroma_docs @ bm25_docs;
          unique_docs = unique_docs_loop all_docs [];
          unique_list = dict_values unique_docs
      in unique_list)"

subsection \<open>\<open>_rerank_documents\<close>\<close>

text \<open>
  \<open>list.sort(key=..., reverse=True)\<close>: CPython reverses the list, runs its
  stable ascending sort on the keys and reverses the result, so that elements
  with equal keys keep their original order. \<open>sort_key\<close> is the stable
  insertion sort of the HOL library. Scores are values of a linear order
  (the floats the cross-encoder returns, NaN apart).
\<close>

definition py_sort_reverse :: "('a \<Rightarrow> 'k::linorder) \<Rightarrow> 'a list \<Rightarrow> 'a list" where
  "py_sort_reverse key xs = rev (sort_key key (rev xs))"

text \<open>The argument dict of \<open>_rerank_documents\<close>, with its two keys.\<close>

record query_and_docs =
  query :: string
  documents :: "chunk list"

text \<open>
  \<open>scored_docs\<close> after the sort: the (score, document) pairs in descending
  score order. \<open>zip\<close> stops at the shorter of the two sequences, in Python
  as in HOL.
\<close>

definition scored_docs ::
  "query_and_docs \<Rightarrow> ((string \<times> string) list \<Rightarrow> 's::linorder list) \<Rightarrow> ('s \<times> chunk) list" where
  "scored_docs x predict =
     (let pairs = map (\<lambda>doc. (query x, page_content doc)) (documents x);
          scores = predict pairs
      in py_sort_reverse fst (zip scores (documents x)))"

text \<open>
  \<open>_rerank_documents(query_and_docs, cross_encoder_model)\<close>. The second
  component lists the calls made to the cross-encoder, in order.
\<close>

definition rerank_documents ::
  "query_and_docs \<Rightarrow> ((string \<times> string) list \<Rightarrow> 's::linorder list) \<Rightarrow> chunk list \<times> event list" where
  "rerank_documents x predict =
     (if documents x = [] then ([], [])
      else
        let pairs = map (\<lambda>doc. (query x, page_content doc)) (documents x)
        in (map snd (take 3 (scored_docs x predict)), [Predict pairs]))"

subsection \<open>\<open>_format_docs\<close>\<close>

text \<open>\<open>sep.join(strings)\<close>.\<close>

fun str_join :: "string \<Rightarrow> string list \<Rightarrow> string" where
  "str_join sep [] = []"
| "str_join sep [s] = s"
| "str_join sep (s # t # ts) = s @ sep @ str_join sep (t # ts)"

definition format_docs :: "chunk list \<Rightarrow> string" where
  "format_docs docs = str_join [CHR 0x0A, CHR 0x0A] (map page_content docs)"

subsection \<open>The prompt and \<open>run_rag_pipeline\<close>\<close>

text \<open>
  \<open>RAG_PROMPT\<close>: the template with its two slots filled. The three literal
  parts are the text before \<open>{context}\<close>, between the slots and after
  \<open>{question}\<close>.
\<close>

definition template_head :: string where
  "template_head =
     [CHR 0x0A] @ ''You are an assistant for question-answering tasks. '' @ [CHR 0x0A] @
     ''Use the following pieces of retrieved context to answer the question. '' @ [CHR 0x0A] @
     ''If you don'' @ [CHR 0x27] @ ''t know the answer, just say that you don'' @ [CHR 0x27] @
     ''t know. '' @ [CHR 0x0A] @
     ''You must answer *only* based on the context provided.'' @ [CHR 0x0A, CHR 0x0A] @
     ''Context:'' @ [CHR 0x0A]"

definition template_mid :: string where
  "template_mid = [CHR 0x0A, CHR 0x0A] @ ''Question:'' @ [CHR 0x0A]"

definition template_tail :: string where
  "template_tail = [CHR 0x0A, CHR 0x0A] @ ''Answer:'' @ [CHR 0x0A]"

definition RAG_PROMPT :: "string \<Rightarrow> string \<Rightarrow> string" where
  "RAG_PROMPT context question =
     template_head @ context @ template_mid @ question @ template_tail"

text \<open>
  What \<open>run_rag_pipeline\<close> loads before it builds the chain, each as the
  outcome of the library call that loads it:
  \<^item> \<open>HuggingFaceEmbeddings(...)\<close> and \<open>CrossEncoder(...)\<close>;
  \<^item> \<open>Chroma(persist_directory=VECTORSTORE_PATH, ...)\<close> with
    \<open>as_retriever\<close> (k = 5): the exception of the constructor, or the
    retriever over whatever the directory holds. The source checks nothing
    about the directory before or after the call; over a store that was
    never built the retriever finds no document;
  \<^item> the file at \<open>BM25_INDEX_PATH\<close>: \<open>None\<close> when there is no such file
    (\<open>open\<close> raises \<open>FileNotFoundError\<close>), otherwise the outcome of
    \<open>pickle.load\<close> (k set to 5).
\<close>

record 's resources =
  HuggingFaceEmbeddings :: "exn option"
  CrossEncoder :: "exn + ((string \<times> string) list \<Rightarrow> 's list)"
  Chroma :: "exn + retriever"
  bm25_file :: "(exn + retriever) option"

text \<open>
  The chain: documents by hybrid search, re-ranked, formatted into the
  context; the prompt filled with context and question; the chat model
  invoked on it; its text returned (\<open>StrOutputParser\<close>). The chat model is
  a function from the prompt to the completion text.
\<close>

definition rag_chain ::
  "string \<Rightarrow> (string \<Rightarrow> string) \<Rightarrow> ((string \<times> string) list \<Rightarrow> 's::linorder list) \<Rightarrow>
     retriever \<Rightarrow> retriever \<Rightarrow> string \<times> event list" where
  "rag_chain q llm cross_encoder chroma_retriever bm25_retriever =
     (let docs = hybrid_search q chroma_retriever bm25_retriever;
          (window, calls) = rerank_documents \<lparr>query = q, documents = docs\<rparr> cross_encoder;
          context = format_docs window;
          prompt = RAG_PROMPT context q
      in (llm prompt, calls @ [Complete prompt]))"

text \<open>
  \<open>run_rag_pipeline(query, llm)\<close>: an exception of a loading step leaves
  the function at that step, since nothing catches it.
\<close>

definition run_rag_pipeline ::
  "string \<Rightarrow> (string \<Rightarrow> string) \<Rightarrow> ('s::linorder) resources \<Rightarrow> exn + (string \<times> event list)" where
  "run_rag_pipeline q llm res =
     (case HuggingFaceEmbeddings res of Some e \<Rightarrow> Inl e | None \<Rightarrow>
      (case CrossEncoder res of Inl e \<Rightarrow> Inl e | Inr cross_encoder \<Rightarrow>
       (case Chroma res of Inl e \<Rightarrow> Inl e | Inr chroma_retriever \<Rightarrow>
        (case bm25_file res of None \<Rightarrow> Inl FileNotFoundError | Some loaded \<Rightarrow>
         (case loaded of Inl e \<Rightarrow> Inl e | Inr bm25_retriever \<Rightarrow>
            Inr (rag_chain q llm cross_encoder chroma_retriever bm25_retriever))))))"

section \<open>ingestion.py\<close>

text \<open>
  The persisted state at the fixed paths:
  \<^item> \<open>vectorstore\<close>: \<open>None\<close> when there is nothing at \<open>VECTORSTORE_PATH\<close>,
    otherwise the chunks persisted in the directory (none in an empty one);
  \<^item> \<open>bm25_dir\<close>: whether the directory of \<open>BM25_INDEX_PATH\<close> exists;
  \<^item> \<open>bm25_index\<close>: \<open>None\<close> when there is no file at \<open>BM25_INDEX_PATH\<close>,
    otherwise what the file holds: the pickled retriever with its texts and
    metadata, or the empty or partial output of a \<open>pickle.dump\<close> that
    raised after \<open>open(..., 'wb')\<close> had created the file.
\<close>

datatype pickle_file = Pickled "(string \<times> (string \<times> string) list) list" | Partial

record index_store =
  vectorstore :: "chunk list option"
  bm25_dir :: bool
  bm25_index :: "pickle_file option"

text \<open>\<open>os.makedirs(VECTORSTORE_PATH, exist_ok=True)\<close>.\<close>

definition makedirs_vectorstore :: "index_store \<Rightarrow> index_store" where
  "makedirs_vectorstore fs =
     (case vectorstore fs of None \<Rightarrow> fs\<lparr>vectorstore := Some []\<rparr> | Some d \<Rightarrow> fs)"

text \<open>\<open>clear_indexes()\<close>.\<close>

definition clear_indexes :: "index_store \<Rightarrow> index_store" where
  "clear_indexes fs =
     (let fs1 = (if vectorstore fs \<noteq> None then fs\<lparr>vectorstore := None\<rparr> else fs);
          fs2 = (if bm25_index fs1 \<noteq> None then fs1\<lparr>bm25_index := None\<rparr> else fs1);
          fs3 = makedirs_vectorstore fs2
      in fs3\<lparr>bm25_dir := True\<rparr>)"

text \<open>
  The corpus directory: \<open>None\<close> when the path does not exist, otherwise the
  files \<open>os.walk\<close> yields, each with its name and the outcome of running
  the loader of its extension on it.
\<close>

type_synonym corpus = "(string \<times> (exn + chunk list)) list option"

text \<open>
  The two nested loops of \<open>load_documents\<close> over the walked files, with
  \<open>all_documents\<close> as accumulator: hidden files are skipped, a loader that
  raises is reported and skipped, other extensions are ignored.
\<close>

fun load_files :: "(string \<times> (exn + chunk list)) list \<Rightarrow> chunk list \<Rightarrow> chunk list" where
  "load_files [] all_documents = all_documents"
| "load_files ((file, loaded) # files) all_documents =
     (if prefix ''.'' file then load_files files all_documents
      else if suffix ''.pdf'' file then
        (case loaded of
           Inl e \<Rightarrow> load_files files all_documents
         | Inr docs \<Rightarrow> load_files files (all_documents @ docs))
      else if suffix ''.txt'' file then
        (case loaded of
           Inl e \<Rightarrow> load_files files all_documents
         | Inr docs \<Rightarrow> load_files files (all_documents @ docs))
      else load_files files all_documents)"

definition load_documents :: "corpus \<Rightarrow> chunk list" where
  "load_documents corpus_path =
     (case corpus_path of None \<Rightarrow> [] | Some files \<Rightarrow> load_files files [])"

text \<open>
  What \<open>run_ingestion\<close> reads and calls besides the persisted state: the
  corpus, the recursive character splitter behind \<open>split_documents\<close>, and
  the outcomes of the library calls that can raise:
  \<^item> \<open>embeddings_init\<close>: the exception of \<open>HuggingFaceEmbeddings(...)\<close>,
    if it raises;
  \<^item> \<open>chroma_from_documents\<close>: when \<open>Chroma.from_documents\<close> raises,
    its exception and the chunks it had persisted by then;
  \<^item> \<open>bm25_from_texts\<close>: the exception of \<open>BM25Retriever.from_texts\<close>,
    if it raises;
  \<^item> \<open>pickle_dump\<close>: the exception of \<open>pickle.dump\<close>, if it raises.
\<close>

record ingest_env =
  corpus_dir :: corpus
  text_splitter :: "chunk list \<Rightarrow> chunk list"
  embeddings_init :: "exn option"
  chroma_from_documents :: "(exn \<times> chunk list) option"
  bm25_from_texts :: "exn option"
  pickle_dump :: "exn option"

definition split_documents :: "ingest_env \<Rightarrow> chunk list \<Rightarrow> chunk list" where
  "split_documents env docs = text_splitter env docs"

text \<open>
  \<open>create_bm25_index(chunks)\<close>: every exception inside the \<open>try\<close> is
  caught and reported, and the function returns \<open>None\<close>. What is left
  on disk depends on where it was raised: nothing new when
  \<open>from_texts\<close> raises or when \<open>open(BM25_INDEX_PATH, 'wb')\<close> finds no
  directory; the file that \<open>open\<close> created, empty or partial, when
  \<open>pickle.dump\<close> raises, since the handler does not remove it.
\<close>

definition create_bm25_index :: "ingest_env \<Rightarrow> chunk list \<Rightarrow> index_store \<Rightarrow> index_store" where
  "create_bm25_index env chunks fs =
     (let chunk_texts = map page_content chunks;
          chunk_metadatas = map metadata chunks
      in case bm25_from_texts env of
           Some e \<Rightarrow> fs
         | None \<Rightarrow>
             if \<not> bm25_dir fs then fs
             else
               (case pickle_dump env of
                  Some e \<Rightarrow> fs\<lparr>bm25_index := Some Partial\<rparr>
                | None \<Rightarrow> fs\<lparr>bm25_index := Some (Pickled (zip chunk_texts chunk_metadatas))\<rparr>))"

text \<open>
  \<open>run_ingestion()\<close>: the exception that leaves the function, if any, and
  the persisted state it leaves behind.
\<close>

definition run_ingestion :: "ingest_env \<Rightarrow> index_store \<Rightarrow> exn option \<times> index_store" where
  "run_ingestion env fs0 =
     (let fs = clear_indexes fs0;
          documents = load_documents (corpus_dir env)
      in if documents = [] then (None, fs)
         else
           let chunks = split_documents env documents
           in if chunks = [] then (None, fs)
              else
                (case embeddings_init env of
                   Some e \<Rightarrow> (None, fs)
                 | None \<Rightarrow>
                     (case chroma_from_documents env of
                        Some (e, persisted) \<Rightarrow> (Some e, fs\<lparr>vectorstore := Some persisted\<rparr>)
                      | None \<Rightarrow>
                          (None, create_bm25_index env chunks (fs\<lparr>vectorstore := Some chunks\<rparr>)))))"

section \<open>Reference functions for the properties\<close>

text \<open>The distinct elements of a list, in the order of their first occurrence.\<close>

fun first_seen :: "'a list \<Rightarrow> 'a list" where
  "first_seen [] = []"
| "first_seen (x # xs) = x # filter (\<lambda>y. y \<noteq> x) (first_seen xs)"

text \<open>
  Deduplication by text that keeps the first chunk met with each text and
  drops the later ones.
\<close>

fun keep_first :: "chunk list \<Rightarrow> chunk list" where
  "keep_first [] = []"
| "keep_first (d # ds) = d # filter (\<lambda>e. page_content e \<noteq> page_content d) (keep_first ds)"

text \<open>The chunks of a list that carry a given text, in list order.\<close>

definition with_text :: "string \<Rightarrow> chunk list \<Rightarrow> chunk list" where
  "with_text t docs = filter (\<lambda>d. page_content d = t) docs"

section \<open>Hybrid retrieval\<close>

lemma keys_dict_setitem_present:
  "k \<in> fst ` set d \<Longrightarrow> map fst (dict_setitem k v d) = map fst d"
  by (induction d) force+

lemma keys_dict_setitem_absent:
  "k \<notin> fst ` set d \<Longrightarrow> map fst (dict_setitem k v d) = map fst d @ [k]"
  by (induction d) auto

lemma map_of_dict_setitem: "map_of (dict_setitem k v d) = (map_of d)(k \<mapsto> v)"
  by (induction d) (auto simp: fun_eq_iff)

lemma distinct_first_seen: "distinct (first_seen xs)"
  by (induction xs) auto

lemma set_first_seen: "set (first_seen xs) = set xs"
  by (induction xs) auto

lemma keyset_dict_setitem:
  "fst ` set (dict_setitem k v d) = insert k (fst ` set d)"
proof (cases "k \<in> fst ` set d")
  case True
  have "set (map fst (dict_setitem k v d)) = set (map fst d)"
    by (simp only: keys_dict_setitem_present [OF True])
  with True show ?thesis by (simp add: insert_absorb)
next
  case False
  have "set (map fst (dict_setitem k v d)) = set (map fst d @ [k])"
    by (simp only: keys_dict_setitem_absent [OF False])
  then show ?thesis by simp
qed

lemma keys_unique_docs_loop:
  "map fst (unique_docs_loop docs d) =
     map fst d @ filter (\<lambda>t. t \<notin> fst ` set d) (first_seen (map page_content docs))"
proof (induction docs arbitrary: d)
  case Nil
  then show ?case by simp
next
  case (Cons c cs)
  show ?case
  proof (cases "page_content c \<in> fst ` set d")
    case True
    then have "(\<lambda>x. x \<noteq> page_content c \<and> x \<notin> fst ` set d) = (\<lambda>t. t \<notin> fst ` set d)"
      by blast
    with True show ?thesis
      by (simp add: Cons.IH keyset_dict_setitem keys_dict_setitem_present insert_absorb)
  next
    case False
    then show ?thesis
      by (simp add: Cons.IH keyset_dict_setitem keys_dict_setitem_absent)
  qed
qed

lemma with_text_Cons:
  "with_text t (c # cs) = (if page_content c = t then c # with_text t cs else with_text t cs)"
  by (simp add: with_text_def)

lemma map_of_unique_docs_loop:
  "map_of (unique_docs_loop docs d) t =
     (if with_text t docs = [] then map_of d t else Some (last (with_text t docs)))"
proof (induction docs arbitrary: d)
  case Nil
  then show ?case by (simp add: with_text_def)
next
  case (Cons c cs)
  show ?case
  proof (cases "with_text t cs = []")
    case True
    then show ?thesis
      by (cases "page_content c = t") (simp_all add: Cons.IH map_of_dict_setitem with_text_Cons)
  next
    case False
    then show ?thesis
      by (cases "page_content c = t") (simp_all add: Cons.IH with_text_Cons)
  qed
qed

lemma values_by_keys:
  "distinct (map fst d) \<Longrightarrow> map snd d = map (\<lambda>k. the (map_of d k)) (map fst d)"
proof (induction d)
  case Nil
  then show ?case by simp
next
  case (Cons p d)
  obtain k v where p: "p = (k, v)" by (cases p)
  from Cons.prems p have notin: "k \<notin> set (map fst d)" and dist: "distinct (map fst d)"
    by simp_all
  have "map (\<lambda>k'. the (map_of ((k, v) # d) k')) (map fst d) = map (\<lambda>k'. the (map_of d k')) (map fst d)"
  proof (rule map_cong [OF refl])
    fix k' assume "k' \<in> set (map fst d)"
    with notin have "k' \<noteq> k" by blast
    then show "the (map_of ((k, v) # d) k') = the (map_of d k')" by simp
  qed
  with Cons.IH [OF dist] p show ?case by simp
qed

lemma with_text_nonempty: "t \<in> page_content ` set ds \<Longrightarrow> with_text t ds \<noteq> []"
  by (auto simp: with_text_def filter_empty_conv)

lemma text_last_with_text:
  assumes "t \<in> page_content ` set ds"
  shows "page_content (last (with_text t ds)) = t"
proof -
  from assms have "last (with_text t ds) \<in> set (with_text t ds)"
    using with_text_nonempty last_in_set by blast
  then show ?thesis by (simp add: with_text_def)
qed

lemma hybrid_search_eq:
  "hybrid_search q cr br =
     map (\<lambda>t. last (with_text t (cr q @ br q))) (first_seen (map page_content (cr q @ br q)))"
proof -
  let ?all = "cr q @ br q"
  let ?d = "unique_docs_loop ?all []"
  have keys: "map fst ?d = first_seen (map page_content ?all)"
    by (simp add: keys_unique_docs_loop)
  then have dist: "distinct (map fst ?d)"
    by (simp add: distinct_first_seen)
  have "map snd ?d = map (\<lambda>k. the (map_of ?d k)) (first_seen (map page_content ?all))"
    using values_by_keys [OF dist] keys by simp
  also have "\<dots> = map (\<lambda>t. last (with_text t ?all)) (first_seen (map page_content ?all))"
  proof (rule map_cong [OF refl])
    fix t assume "t \<in> set (first_seen (map page_content ?all))"
    then have "t \<in> page_content ` set ?all" by (simp only: set_first_seen set_map)
    then have "with_text t ?all \<noteq> []" by (rule with_text_nonempty)
    then show "the (map_of ?d t) = last (with_text t ?all)"
      by (simp add: map_of_unique_docs_loop)
  qed
  finally show ?thesis
    by (simp add: hybrid_search_def dict_values_def Let_def)
qed

lemma texts_hybrid_search:
  "map page_content (hybrid_search q cr br) = first_seen (map page_content (cr q @ br q))"
proof -
  let ?all = "cr q @ br q"
  have "map (page_content \<circ> (\<lambda>t. last (with_text t ?all))) (first_seen (map page_content ?all))
      = first_seen (map page_content ?all)"
  proof (rule map_idI)
    fix t assume "t \<in> set (first_seen (map page_content ?all))"
    then have "t \<in> page_content ` set ?all" by (simp only: set_first_seen set_map)
    then show "(page_content \<circ> (\<lambda>t. last (with_text t ?all))) t = t"
      by (simp only: o_apply text_last_with_text)
  qed
  then show ?thesis
    by (simp only: hybrid_search_eq map_map)
qed


lemma texts_keep_first: "map page_content (keep_first ds) = first_seen (map page_content ds)"
proof (induction ds)
  case Nil
  then show ?case by simp
next
  case (Cons d ds)
  have "map page_content (filter (\<lambda>e. page_content e \<noteq> page_content d) (keep_first ds))
      = filter (\<lambda>y. y \<noteq> page_content d) (map page_content (keep_first ds))"
    by (simp add: filter_map o_def)
  then show ?case by (simp add: Cons.IH)
qed

lemma set_with_text: "set (with_text t ds) \<subseteq> set ds"
  by (simp add: with_text_def)

lemma set_keep_first: "set (keep_first ds) \<subseteq> set ds"
  by (induction ds) auto

lemma set_hybrid_search: "set (hybrid_search q cr br) \<subseteq> set (cr q @ br q)"
proof
  fix c assume "c \<in> set (hybrid_search q cr br)"
  then obtain t where t: "t \<in> page_content ` set (cr q @ br q)"
    and c: "c = last (with_text t (cr q @ br q))"
    unfolding hybrid_search_eq by (auto simp: set_first_seen)
  from t have "last (with_text t (cr q @ br q)) \<in> set (with_text t (cr q @ br q))"
    using with_text_nonempty last_in_set by blast
  with c show "c \<in> set (cr q @ br q)" using set_with_text by blast
qed

text \<open>
  C1 (as amended). The pool holds one chunk for each distinct text, the texts
  in the order of their first occurrence in the dense results followed by the
  sparse ones; the chunk kept for a text is the last one met with that text,
  since a later assignment to a key that is present replaces the value in
  place. The texts of the pool are those of the keep-first deduplication, and
  when equal texts only come with equal chunks the pool is the keep-first
  deduplication itself.
\<close>

theorem hybrid_search_first_seen_last_kept:
  "hybrid_search q cr br =
     map (\<lambda>t. last (with_text t (cr q @ br q))) (first_seen (map page_content (cr q @ br q)))
   \<and> map page_content (hybrid_search q cr br) = map page_content (keep_first (cr q @ br q))
   \<and> (inj_on page_content (set (cr q @ br q)) \<longrightarrow>
        hybrid_search q cr br = keep_first (cr q @ br q))"
proof (intro conjI impI)
  show "hybrid_search q cr br =
     map (\<lambda>t. last (with_text t (cr q @ br q))) (first_seen (map page_content (cr q @ br q)))"
    by (rule hybrid_search_eq)
  show texts: "map page_content (hybrid_search q cr br) = map page_content (keep_first (cr q @ br q))"
    by (simp only: texts_hybrid_search texts_keep_first)
  assume inj: "inj_on page_content (set (cr q @ br q))"
  have "set (hybrid_search q cr br) \<union> set (keep_first (cr q @ br q)) \<subseteq> set (cr q @ br q)"
    using set_hybrid_search [of q cr br] set_keep_first [of "cr q @ br q"] by blast
  then have "inj_on page_content (set (hybrid_search q cr br) \<union> set (keep_first (cr q @ br q)))"
    using inj by (rule inj_on_subset [rotated])
  then show "hybrid_search q cr br = keep_first (cr q @ br q)"
    using texts by (simp only: inj_on_map_eq_map)
qed

text \<open>C1, witness: dense results a, b and sparse results b, c give the pool a, b, c.\<close>

theorem hybrid_search_first_seen_last_kept_witness:
  "inj_on page_content (set ([\<lparr>page_content = ''a'', metadata = []\<rparr>, \<lparr>page_content = ''b'', metadata = []\<rparr>]
        @ [\<lparr>page_content = ''b'', metadata = []\<rparr>, \<lparr>page_content = ''c'', metadata = []\<rparr>]))
   \<and> hybrid_search ''q''
        (\<lambda>q. [\<lparr>page_content = ''a'', metadata = []\<rparr>, \<lparr>page_content = ''b'', metadata = []\<rparr>])
        (\<lambda>q. [\<lparr>page_content = ''b'', metadata = []\<rparr>, \<lparr>page_content = ''c'', metadata = []\<rparr>])
     = [\<lparr>page_content = ''a'', metadata = []\<rparr>, \<lparr>page_content = ''b'', metadata = []\<rparr>,
        \<lparr>page_content = ''c'', metadata = []\<rparr>]"
proof -
  have inj: "inj_on page_content (set ([\<lparr>page_content = ''a'', metadata = []\<rparr>, \<lparr>page_content = ''b'', metadata = []\<rparr>]
        @ [\<lparr>page_content = ''b'', metadata = []\<rparr>, \<lparr>page_content = ''c'', metadata = []\<rparr>]))"
    by simp
  show ?thesis
    using inj hybrid_search_first_seen_last_kept [of "''q''"
        "\<lambda>q. [\<lparr>page_content = ''a'', metadata = []\<rparr>, \<lparr>page_content = ''b'', metadata = []\<rparr>]"
        "\<lambda>q. [\<lparr>page_content = ''b'', metadata = []\<rparr>, \<lparr>page_content = ''c'', metadata = []\<rparr>]"]
    by (simp add: with_text_def)
qed

text \<open>
  C1, counterexample to the claim as stated: the same text retrieved by the
  dense retriever from one source file and by the sparse retriever from another.
  The pool keeps the sparse chunk, not the first occurrence.
\<close>

theorem hybrid_search_keeps_first_counterexample:
  "hybrid_search ''q''
      (\<lambda>q. [\<lparr>page_content = ''a'', metadata = [(''source'', ''x.pdf'')]\<rparr>])
      (\<lambda>q. [\<lparr>page_content = ''a'', metadata = [(''source'', ''y.txt'')]\<rparr>])
    = [\<lparr>page_content = ''a'', metadata = [(''source'', ''y.txt'')]\<rparr>]
   \<and> keep_first ([\<lparr>page_content = ''a'', metadata = [(''source'', ''x.pdf'')]\<rparr>]
        @ [\<lparr>page_content = ''a'', metadata = [(''source'', ''y.txt'')]\<rparr>])
    = [\<lparr>page_content = ''a'', metadata = [(''source'', ''x.pdf'')]\<rparr>]
   \<and> hybrid_search ''q''
      (\<lambda>q. [\<lparr>page_content = ''a'', metadata = [(''source'', ''x.pdf'')]\<rparr>])
      (\<lambda>q. [\<lparr>page_content = ''a'', metadata = [(''source'', ''y.txt'')]\<rparr>])
    \<noteq> keep_first ([\<lparr>page_content = ''a'', metadata = [(''source'', ''x.pdf'')]\<rparr>]
        @ [\<lparr>page_content = ''a'', metadata = [(''source'', ''y.txt'')]\<rparr>])"
  by (simp add: hybrid_search_def dict_values_def)

lemma count_in_distinct:
  "distinct xs \<Longrightarrow> length (filter (\<lambda>u. u = t) xs) = (if t \<in> set xs then 1 else 0)"
  by (induction xs) auto

text \<open>
  C2. No two chunks of the pool have the same text, and a text has exactly
  one chunk in the pool when it occurs in the dense or the sparse results
  (any number of times), and none otherwise.
\<close>

theorem hybrid_search_one_chunk_per_text:
  "distinct (map page_content (hybrid_search q cr br))
   \<and> length (with_text t (hybrid_search q cr br))
       = (if t \<in> page_content ` (set (cr q) \<union> set (br q)) then 1 else 0)"
proof
  show "distinct (map page_content (hybrid_search q cr br))"
    by (simp only: texts_hybrid_search distinct_first_seen)
  have "length (with_text t (hybrid_search q cr br))
      = length (filter (\<lambda>u. u = t) (map page_content (hybrid_search q cr br)))"
    by (simp add: with_text_def filter_map o_def)
  also have "\<dots> = (if t \<in> set (first_seen (map page_content (cr q @ br q))) then 1 else 0)"
    by (simp only: texts_hybrid_search count_in_distinct [OF distinct_first_seen])
  finally show "length (with_text t (hybrid_search q cr br))
       = (if t \<in> page_content ` (set (cr q) \<union> set (br q)) then 1 else 0)"
    by (simp add: set_first_seen image_Un)
qed

text \<open>C2, witness: a text that occurs three times with different metadata.\<close>

theorem hybrid_search_one_chunk_per_text_witness:
  "''b'' \<in> page_content ` (set [\<lparr>page_content = ''a'', metadata = []\<rparr>, \<lparr>page_content = ''b'', metadata = [(''page'', ''1'')]\<rparr>]
       \<union> set [\<lparr>page_content = ''b'', metadata = [(''page'', ''2'')]\<rparr>, \<lparr>page_content = ''b'', metadata = []\<rparr>])
   \<and> length (with_text ''b'' (hybrid_search ''q''
        (\<lambda>q. [\<lparr>page_content = ''a'', metadata = []\<rparr>, \<lparr>page_content = ''b'', metadata = [(''page'', ''1'')]\<rparr>])
        (\<lambda>q. [\<lparr>page_content = ''b'', metadata = [(''page'', ''2'')]\<rparr>, \<lparr>page_content = ''b'', metadata = []\<rparr>]))) = 1"
  using hybrid_search_one_chunk_per_text [of "''q''"
        "\<lambda>q. [\<lparr>page_content = ''a'', metadata = []\<rparr>, \<lparr>page_content = ''b'', metadata = [(''page'', ''1'')]\<rparr>]"
        "\<lambda>q. [\<lparr>page_content = ''b'', metadata = [(''page'', ''2'')]\<rparr>, \<lparr>page_content = ''b'', metadata = []\<rparr>]"
        "''b''"]
  by simp

section \<open>Re-ranking\<close>

lemma filter_py_sort_reverse:
  "filter (\<lambda>y. key y = k) (py_sort_reverse key xs) = filter (\<lambda>y. key y = k) xs"
proof -
  have "filter (\<lambda>y. key y = k) (rev (sort_key key (rev xs)))
      = rev (filter (\<lambda>y. key y = k) (sort_key key (rev xs)))"
    by (simp only: rev_filter)
  also have "\<dots> = rev (filter (\<lambda>y. key y = k) (rev xs))"
    by (simp only: sort_key_stable)
  also have "\<dots> = filter (\<lambda>y. key y = k) xs"
    by (simp only: rev_filter rev_rev_ident)
  finally show ?thesis by (simp only: py_sort_reverse_def)
qed

lemma mset_py_sort_reverse: "mset (py_sort_reverse key xs) = mset xs"
  by (simp add: py_sort_reverse_def)

lemma set_py_sort_reverse: "set (py_sort_reverse key xs) = set xs"
  by (simp add: py_sort_reverse_def)

lemma length_py_sort_reverse: "length (py_sort_reverse key xs) = length xs"
  by (simp add: py_sort_reverse_def)

lemma distinct_py_sort_reverse: "distinct (py_sort_reverse key xs) = distinct xs"
  by (simp add: py_sort_reverse_def)

lemma sorted_py_sort_reverse:
  "sorted_wrt (\<lambda>a b. key b \<le> key a) (py_sort_reverse key xs)"
proof -
  have "sorted (map key (sort_key key (rev xs)))"
    by (rule sorted_sort_key)
  then have "sorted_wrt (\<lambda>a b. key a \<le> key b) (sort_key key (rev xs))"
    by (simp only: sorted_map)
  then show ?thesis
    by (simp only: py_sort_reverse_def sorted_wrt_rev)
qed

lemma nth_decomp2:
  assumes "i < j" "j < length xs"
  shows "\<exists>us vs ws. xs = us @ xs ! i # vs @ xs ! j # ws"
proof -
  from assms have i: "i < length xs" by simp
  let ?r = "drop (Suc i) xs"
  from assms have j': "j - Suc i < length ?r" by simp
  have "xs = take i xs @ xs ! i # ?r"
    using i by (rule id_take_nth_drop)
  moreover have "?r = take (j - Suc i) ?r @ ?r ! (j - Suc i) # drop (Suc (j - Suc i)) ?r"
    using j' by (rule id_take_nth_drop)
  moreover have "?r ! (j - Suc i) = xs ! j"
    using assms by simp
  ultimately have "xs = take i xs @ xs ! i # take (j - Suc i) ?r @ xs ! j # drop (Suc (j - Suc i)) ?r"
    by simp
  then show ?thesis by blast
qed

lemma filter_decomp2:
  assumes "filter P xs = us @ a # vs @ b # ws"
  shows "\<exists>us' vs' ws'. xs = us' @ a # vs' @ b # ws'"
  using assms
proof (induction xs arbitrary: us)
  case Nil
  then show ?case by simp
next
  case (Cons x xs)
  show ?case
  proof (cases "P x")
    case False
    with Cons.prems have "filter P xs = us @ a # vs @ b # ws" by simp
    from Cons.IH [OF this] obtain us' vs' ws' where "xs = us' @ a # vs' @ b # ws'" by blast
    then have "x # xs = (x # us') @ a # vs' @ b # ws'" by simp
    then show ?thesis by blast
  next
    case True
    with Cons.prems have eq: "x # filter P xs = us @ a # vs @ b # ws" by simp
    show ?thesis
    proof (cases us)
      case Nil
      with eq have xa: "x = a" and rest: "filter P xs = vs @ b # ws" by simp_all
      from rest have "b \<in> set (filter P xs)" by simp
      then have "b \<in> set xs" by simp
      then obtain vs' ws' where "xs = vs' @ b # ws'"
        by (auto dest: split_list)
      with xa have "x # xs = [] @ a # vs' @ b # ws'" by simp
      then show ?thesis by blast
    next
      case (Cons u us1)
      with eq have "filter P xs = us1 @ a # vs @ b # ws" by simp
      from Cons.IH [OF this] obtain us' vs' ws' where "xs = us' @ a # vs' @ b # ws'" by blast
      then have "x # xs = (x # us') @ a # vs' @ b # ws'" by simp
      then show ?thesis by blast
    qed
  qed
qed

lemma take_decomp2:
  assumes xs: "xs = us @ a # vs @ b # ws" and d: "distinct xs" and b: "b \<in> set (take n xs)"
  shows "take n xs = us @ a # vs @ b # take (n - Suc (Suc (length us + length vs))) ws"
proof -
  define p where "p = us @ a # vs"
  have xs': "xs = p @ b # ws" using xs by (simp add: p_def)
  from d xs' have nb: "b \<notin> set p" by auto
  have tk: "take n xs = take n p @ take (n - length p) (b # ws)"
    unfolding xs' by (rule take_append)
  have "length p < n"
  proof (rule ccontr)
    assume "\<not> length p < n"
    then have "take n xs = take n p" using tk by simp
    with b have "b \<in> set p" by (metis in_set_takeD)
    with nb show False by contradiction
  qed
  then have "take n xs = p @ b # take (n - Suc (length p)) ws"
    using tk by (simp add: take_Cons')
  then show ?thesis by (simp add: p_def)
qed


lemma scored_docs_eq:
  "scored_docs x predict =
     py_sort_reverse fst (zip (predict (map (\<lambda>doc. (query x, page_content doc)) (documents x))) (documents x))"
  by (simp add: scored_docs_def Let_def)

lemma window_eq:
  "fst (rerank_documents x predict) = map snd (take 3 (scored_docs x predict))"
  by (simp add: rerank_documents_def scored_docs_eq py_sort_reverse_def Let_def)

text \<open>
  C3. In a pool without repeated chunks, take two chunks to which the
  cross-encoder gives equal scores, the one at position \<open>i\<close> before the
  one at position \<open>j\<close>. If the later one is in the context window, so is
  the earlier one, and it stands before the later one there: chunks with
  equal scores keep their pool order.
\<close>

theorem rerank_ties_keep_pool_order:
  fixes predict :: "(string \<times> string) list \<Rightarrow> 's::linorder list"
  assumes scores: "scores = predict (map (\<lambda>doc. (query x, page_content doc)) (documents x))"
    and window: "window = fst (rerank_documents x predict)"
    and dist: "distinct (documents x)"
    and ij: "i < j" "j < length (documents x)"
    and tie: "scores ! i = scores ! j"
    and inw: "documents x ! j \<in> set window"
  shows "\<exists>i' j'. i' < j' \<and> j' < length window
           \<and> window ! i' = documents x ! i \<and> window ! j' = documents x ! j"
proof -
  let ?docs = "documents x"
  let ?zs = "zip scores ?docs"
  let ?S = "py_sort_reverse fst ?zs"
  have S: "scored_docs x predict = ?S"
    by (simp only: scored_docs_eq scores)
  have w: "window = map snd (take 3 ?S)"
    by (simp only: window window_eq S)
  have dzs: "distinct ?zs"
    using dist by (rule distinct_zipI2)
  then have dS: "distinct ?S"
    by (simp only: distinct_py_sort_reverse)
  from inw w obtain p where p: "p \<in> set (take 3 ?S)" and sp: "snd p = ?docs ! j"
    by auto
  from p have "p \<in> set ?zs"
    using in_set_takeD set_py_sort_reverse by fast
  then obtain k where k: "k < length ?zs" and pk: "?zs ! k = p"
    by (auto simp: in_set_conv_nth)
  from k have kd: "k < length ?docs" and ks: "k < length scores" by simp_all
  from pk k sp have "?docs ! k = ?docs ! j" by (metis nth_zip kd ks snd_conv)
  with dist kd ij have kj: "k = j" by (simp add: nth_eq_iff_index_eq)
  with k ij have jz: "j < length ?zs" and iz: "i < length ?zs" by simp_all
  have a: "?zs ! i = (scores ! i, ?docs ! i)" using iz by simp
  have b: "?zs ! j = (scores ! j, ?docs ! j)" using jz by simp
  from pk kj b have pb: "p = (scores ! j, ?docs ! j)" by simp
  obtain us vs ws where zs: "?zs = us @ (scores ! i, ?docs ! i) # vs @ (scores ! j, ?docs ! j) # ws"
    using nth_decomp2 [OF ij(1) jz] a b by metis
  let ?P = "\<lambda>y::'s \<times> chunk. fst y = scores ! j"
  have "filter ?P ?S = filter ?P ?zs"
    by (rule filter_py_sort_reverse)
  also have "\<dots> = filter ?P (us @ (scores ! i, ?docs ! i) # vs @ (scores ! j, ?docs ! j) # ws)"
    using zs by (rule arg_cong)
  also have "\<dots> = filter ?P us @ (scores ! i, ?docs ! i) # filter ?P vs @ (scores ! j, ?docs ! j) # filter ?P ws"
    using tie by simp
  finally have feq: "filter ?P ?S =
      filter ?P us @ (scores ! i, ?docs ! i) # filter ?P vs @ (scores ! j, ?docs ! j) # filter ?P ws" .
  from filter_decomp2 [OF feq] obtain us' vs' ws'
    where S': "?S = us' @ (scores ! i, ?docs ! i) # vs' @ (scores ! j, ?docs ! j) # ws'"
    by blast
  from p pb have "(scores ! j, ?docs ! j) \<in> set (take 3 ?S)" by simp
  from take_decomp2 [OF S' dS this] obtain rest where
    "take 3 ?S = us' @ (scores ! i, ?docs ! i) # vs' @ (scores ! j, ?docs ! j) # rest"
    by blast
  with w have weq: "window = map snd us' @ ?docs ! i # map snd vs' @ ?docs ! j # map snd rest"
    by simp
  let ?i' = "length (map snd us')"
  let ?j' = "length (map snd us' @ ?docs ! i # map snd vs')"
  have "window ! ?i' = ?docs ! i"
    unfolding weq by (rule nth_append_length)
  moreover have "window = (map snd us' @ ?docs ! i # map snd vs') @ ?docs ! j # map snd rest"
    using weq by simp
  then have "window ! ?j' = ?docs ! j"
    by (metis nth_append_length)
  moreover have "?i' < ?j'" by simp
  moreover have "?j' < length window"
    unfolding weq by simp
  ultimately show ?thesis by blast
qed


text \<open>
  C3, witness: a pool a, b, c, d scored 1, 5, 1, 0 gives the window b, a, c,
  with the tied chunks a and c in pool order.
\<close>

theorem rerank_ties_keep_pool_order_witness:
  "distinct [\<lparr>page_content = ''a'', metadata = []\<rparr>, \<lparr>page_content = ''b'', metadata = []\<rparr>,
             \<lparr>page_content = ''c'', metadata = []\<rparr>, \<lparr>page_content = ''d'', metadata = []\<rparr>]
   \<and> fst (rerank_documents
          \<lparr>query = ''q'', documents =
            [\<lparr>page_content = ''a'', metadata = []\<rparr>, \<lparr>page_content = ''b'', metadata = []\<rparr>,
             \<lparr>page_content = ''c'', metadata = []\<rparr>, \<lparr>page_content = ''d'', metadata = []\<rparr>]\<rparr>
          (\<lambda>pairs. [1, 5, 1, 0 :: int]))
       = [\<lparr>page_content = ''b'', metadata = []\<rparr>, \<lparr>page_content = ''a'', metadata = []\<rparr>,
          \<lparr>page_content = ''c'', metadata = []\<rparr>]
   \<and> (\<exists>i' j'. i' < j' \<and> j' < 3
          \<and> [\<lparr>page_content = ''b'', metadata = []\<rparr>, \<lparr>page_content = ''a'', metadata = []\<rparr>,
              \<lparr>page_content = ''c'', metadata = []\<rparr>] ! i' = \<lparr>page_content = ''a'', metadata = []\<rparr>
          \<and> [\<lparr>page_content = ''b'', metadata = []\<rparr>, \<lparr>page_content = ''a'', metadata = []\<rparr>,
              \<lparr>page_content = ''c'', metadata = []\<rparr>] ! j' = \<lparr>page_content = ''c'', metadata = []\<rparr>)"
proof -
  let ?a = "\<lparr>page_content = ''a'', metadata = []\<rparr>"
  let ?b = "\<lparr>page_content = ''b'', metadata = []\<rparr>"
  let ?c = "\<lparr>page_content = ''c'', metadata = []\<rparr>"
  let ?d = "\<lparr>page_content = ''d'', metadata = []\<rparr>"
  let ?x = "\<lparr>query = ''q'', documents = [?a, ?b, ?c, ?d]\<rparr>"
  let ?predict = "\<lambda>pairs :: (string \<times> string) list. [1, 5, 1, 0 :: int]"
  have d: "distinct (documents ?x)" by simp
  have w: "fst (rerank_documents ?x ?predict) = [?b, ?a, ?c]"
    by (simp add: rerank_documents_def scored_docs_def py_sort_reverse_def)
  have ij: "(0::nat) < 2" "2 < length (documents ?x)" by simp_all
  have tie: "[1, 5, 1, 0 :: int] ! 0 = [1, 5, 1, 0 :: int] ! 2" by simp
  have inw: "documents ?x ! 2 \<in> set [?b, ?a, ?c]" by simp
  have "\<exists>i' j'. i' < j' \<and> j' < length [?b, ?a, ?c]
          \<and> [?b, ?a, ?c] ! i' = documents ?x ! 0 \<and> [?b, ?a, ?c] ! j' = documents ?x ! 2"
    by (rule rerank_ties_keep_pool_order [where predict = ?predict, OF _ w [symmetric] d ij tie inw])
      simp
  with w show ?thesis by (simp add: numeral_3_eq_3)
qed

text \<open>
  C4. The context window has at most min(3, length of the pool) chunks: it
  is the first three entries of the sorted list, hence all of them, min(3,
  length of the pool) many, when the cross-encoder returns one score for each
  pair it is given.
\<close>

theorem rerank_window_bounded:
  "length (fst (rerank_documents x predict)) \<le> min 3 (length (documents x))
   \<and> fst (rerank_documents x predict) = map snd (take 3 (scored_docs x predict))
   \<and> (length (predict (map (\<lambda>doc. (query x, page_content doc)) (documents x))) = length (documents x) \<longrightarrow>
        length (fst (rerank_documents x predict)) = min 3 (length (documents x)))"
  by (auto simp add: window_eq scored_docs_eq length_py_sort_reverse)

text \<open>
  C4, witness: a pool of two chunks, one score each, gives a window of two.
\<close>

theorem rerank_window_bounded_witness:
  "length ((\<lambda>pairs. map (\<lambda>p. 7 :: int) pairs)
       (map (\<lambda>doc. (''q'', page_content doc))
          [\<lparr>page_content = ''a'', metadata = []\<rparr>, \<lparr>page_content = ''b'', metadata = []\<rparr>]))
     = length [\<lparr>page_content = ''a'', metadata = []\<rparr>, \<lparr>page_content = ''b'', metadata = []\<rparr>]
   \<and> length (fst (rerank_documents
        \<lparr>query = ''q'', documents =
            [\<lparr>page_content = ''a'', metadata = []\<rparr>, \<lparr>page_content = ''b'', metadata = []\<rparr>]\<rparr>
        (\<lambda>pairs. map (\<lambda>p. 7 :: int) pairs))) = 2"
proof -
  let ?x = "\<lparr>query = ''q'', documents =
            [\<lparr>page_content = ''a'', metadata = []\<rparr>, \<lparr>page_content = ''b'', metadata = []\<rparr>]\<rparr>"
  let ?predict = "\<lambda>pairs :: (string \<times> string) list. map (\<lambda>p. 7 :: int) pairs"
  have h: "length (?predict (map (\<lambda>doc. (query ?x, page_content doc)) (documents ?x)))
      = length (documents ?x)"
    by simp
  have "length (fst (rerank_documents ?x ?predict)) = min 3 (length (documents ?x))"
    using rerank_window_bounded [of ?x ?predict] h by blast
  then show ?thesis by simp
qed

text \<open>
  C5. On an empty pool the re-ranker returns the empty window and makes no
  call to the cross-encoder; on a pool with at least one chunk it makes
  exactly one call, with one pair for each chunk.
\<close>

theorem rerank_empty_pool_no_model_call:
  "rerank_documents \<lparr>query = q, documents = []\<rparr> predict = ([], [])
   \<and> snd (rerank_documents \<lparr>query = q, documents = d # ds\<rparr> predict)
       = [Predict (map (\<lambda>doc. (q, page_content doc)) (d # ds))]"
  by (simp add: rerank_documents_def)

text \<open>
  C6, counterexample to the claim as stated: a pool a, b scored 1, 2 gives
  the window b, a, which is not a subsequence of the pool.
\<close>

theorem rerank_window_subsequence_counterexample:
  "fst (rerank_documents
      \<lparr>query = ''q'', documents =
         [\<lparr>page_content = ''a'', metadata = []\<rparr>, \<lparr>page_content = ''b'', metadata = []\<rparr>]\<rparr>
      (\<lambda>pairs. [1, 2 :: int]))
     = [\<lparr>page_content = ''b'', metadata = []\<rparr>, \<lparr>page_content = ''a'', metadata = []\<rparr>]
   \<and> \<not> subseq
        (fst (rerank_documents
          \<lparr>query = ''q'', documents =
            [\<lparr>page_content = ''a'', metadata = []\<rparr>, \<lparr>page_content = ''b'', metadata = []\<rparr>]\<rparr>
          (\<lambda>pairs. [1, 2 :: int])))
        [\<lparr>page_content = ''a'', metadata = []\<rparr>, \<lparr>page_content = ''b'', metadata = []\<rparr>]"
  by (simp add: rerank_documents_def scored_docs_def py_sort_reverse_def)

lemma mset_take_subset: "mset (take n xs) \<subseteq># mset xs"
proof -
  have "mset xs = mset (take n xs) + mset (drop n xs)"
    by (metis append_take_drop_id mset_append)
  then show ?thesis by simp
qed

lemma mset_window_subset:
  "mset (map snd (take n (py_sort_reverse key (zip ss ds)))) \<subseteq># mset ds"
proof -
  have "mset (take n (py_sort_reverse key (zip ss ds))) \<subseteq># mset (zip ss ds)"
    using mset_take_subset [of n "py_sort_reverse key (zip ss ds)"]
    by (simp only: mset_py_sort_reverse)
  then have "image_mset snd (mset (take n (py_sort_reverse key (zip ss ds))))
        \<subseteq># image_mset snd (mset (zip ss ds))"
    by (rule image_mset_subseteq_mono)
  then have "mset (map snd (take n (py_sort_reverse key (zip ss ds)))) \<subseteq># mset (map snd (zip ss ds))"
    by (simp only: mset_map)
  also have "mset (map snd (zip ss ds)) = mset (take (length ss) ds)"
    by (simp only: map_snd_zip_take) (metis min.commute take_all_iff take_take linorder_le_cases min_def)
  also have "\<dots> \<subseteq># mset ds" by (rule mset_take_subset)
  finally show ?thesis .
qed

text \<open>
  C6 (as amended). The context window is made of the chunks of the first
  three entries of the scored list; it has at most three chunks, each taken
  from the pool and no more often than the pool holds it; the scored list
  is a rearrangement of the pool chunks paired with their scores, in
  descending score order, and for every score the entries with that score
  stand in pool order. The window does not keep the pool order of chunks
  with different scores.
\<close>

theorem rerank_window_sorted_selection:
  "fst (rerank_documents x predict) = map snd (take 3 (scored_docs x predict))
   \<and> length (fst (rerank_documents x predict)) \<le> 3
   \<and> mset (fst (rerank_documents x predict)) \<subseteq># mset (documents x)
   \<and> mset (scored_docs x predict)
       = mset (zip (predict (map (\<lambda>doc. (query x, page_content doc)) (documents x))) (documents x))
   \<and> sorted_wrt (\<lambda>a b. fst b \<le> fst a) (scored_docs x predict)
   \<and> filter (\<lambda>y. fst y = s) (scored_docs x predict)
       = filter (\<lambda>y. fst y = s)
           (zip (predict (map (\<lambda>doc. (query x, page_content doc)) (documents x))) (documents x))"
proof (intro conjI)
  show "fst (rerank_documents x predict) = map snd (take 3 (scored_docs x predict))"
    by (rule window_eq)
  show "length (fst (rerank_documents x predict)) \<le> 3"
    by (simp add: window_eq)
  show "mset (fst (rerank_documents x predict)) \<subseteq># mset (documents x)"
    by (simp only: window_eq scored_docs_eq mset_window_subset)
  show "mset (scored_docs x predict)
       = mset (zip (predict (map (\<lambda>doc. (query x, page_content doc)) (documents x))) (documents x))"
    by (simp only: scored_docs_eq mset_py_sort_reverse)
  show "sorted_wrt (\<lambda>a b. fst b \<le> fst a) (scored_docs x predict)"
    by (simp only: scored_docs_eq sorted_py_sort_reverse)
  show "filter (\<lambda>y. fst y = s) (scored_docs x predict)
       = filter (\<lambda>y. fst y = s)
           (zip (predict (map (\<lambda>doc. (query x, page_content doc)) (documents x))) (documents x))"
    by (simp only: scored_docs_eq filter_py_sort_reverse)
qed

section \<open>Context assembly, the pipeline and ingestion\<close>

lemma str_join_Cons:
  "str_join sep (s # ss) = s @ concat (map (\<lambda>t. sep @ t) ss)"
  by (induction ss arbitrary: s) simp_all

text \<open>
  C8. The assembled context of an empty window is the empty string; that of
  a window with a first chunk is the text of that chunk followed, for each
  further chunk in window order, by two newlines and its text. For the two
  chunks of the end-to-end scenario it is the first text, a blank line and
  the second text.
\<close>

theorem format_docs_blank_line_join:
  "format_docs [] = []
   \<and> format_docs (c # cs)
       = page_content c @ concat (map (\<lambda>d. [CHR 0x0A, CHR 0x0A] @ page_content d) cs)
   \<and> format_docs [\<lparr>page_content = ''Paris is the capital of France'', metadata = m1\<rparr>,
                   \<lparr>page_content = ''The Eiffel Tower is in Paris'', metadata = m2\<rparr>]
       = ''Paris is the capital of France'' @ [CHR 0x0A, CHR 0x0A] @ ''The Eiffel Tower is in Paris''"
  by (simp add: format_docs_def str_join_Cons map_map o_def)

text \<open>
  C10. When the hybrid search gives an empty pool, the context assembled
  from the re-ranked window is the empty string, and the pipeline, its models
  and indexes loaded, still calls the chat model, once, on the template
  filled with the empty context and the question, and returns its text; the
  cross-encoder is not called.
\<close>

theorem empty_pool_still_prompts_chat_model:
  assumes "hybrid_search q chroma_retriever bm25_retriever = []"
  shows "format_docs (fst (rerank_documents
            \<lparr>query = q, documents = hybrid_search q chroma_retriever bm25_retriever\<rparr> cross_encoder)) = []
       \<and> run_rag_pipeline q llm
            \<lparr>HuggingFaceEmbeddings = None, CrossEncoder = Inr cross_encoder,
             Chroma = Inr chroma_retriever, bm25_file = Some (Inr bm25_retriever)\<rparr>
          = Inr (llm (RAG_PROMPT [] q), [Complete (RAG_PROMPT [] q)])
       \<and> RAG_PROMPT [] q = template_head @ template_mid @ q @ template_tail"
  using assms
  by (simp add: run_rag_pipeline_def rag_chain_def rerank_documents_def format_docs_def RAG_PROMPT_def Let_def)

text \<open>
  C10, witness: both retrievers return nothing for the question.
\<close>

theorem empty_pool_still_prompts_chat_model_witness:
  "hybrid_search ''What is the capital of France?'' (\<lambda>q. []) (\<lambda>q. []) = []
   \<and> run_rag_pipeline ''What is the capital of France?'' (\<lambda>prompt. ''I do not know.'')
        \<lparr>HuggingFaceEmbeddings = None, CrossEncoder = Inr (\<lambda>pairs. map (\<lambda>p. 0 :: int) pairs),
         Chroma = Inr (\<lambda>q. []), bm25_file = Some (Inr (\<lambda>q. []))\<rparr>
      = Inr (''I do not know.'', [Complete (RAG_PROMPT [] ''What is the capital of France?'')])"
proof -
  have h: "hybrid_search ''What is the capital of France?'' (\<lambda>q. []) (\<lambda>q. []) = []"
    by (simp add: hybrid_search_def dict_values_def)
  from empty_pool_still_prompts_chat_model [OF h,
      of "\<lambda>pairs. map (\<lambda>p. 0 :: int) pairs" "\<lambda>prompt. ''I do not know.''"]
  show ?thesis using h by simp
qed

lemma rag_chain_dense_empty:
  "chroma_retriever q = [] \<Longrightarrow>
     rag_chain q llm cross_encoder chroma_retriever bm25_retriever
       = rag_chain q llm cross_encoder (\<lambda>q. []) bm25_retriever"
  by (simp add: rag_chain_def hybrid_search_def)

text \<open>
  C7 (as amended). With both models loaded:
  \<^item> when there is no BM25 file, the index not being built, the call fails
    and gives no answer from the vector store alone; the exception is the
    builtin \<open>FileNotFoundError\<close> of \<open>open\<close>, or that of the \<open>Chroma\<close>
    constructor when it raises first;
  \<^item> when the \<open>Chroma\<close> constructor raises, the call fails with that
    exception;
  \<^item> when the vector store is not built and the constructor opens it all the
    same, its retriever finding nothing, the call does not fail: the pool is
    the deduplicated sparse results and the answer is that of the chain run
    on the BM25 results alone.
\<close>

theorem run_rag_pipeline_index_unavailable:
  assumes "HuggingFaceEmbeddings res = None" and "CrossEncoder res = Inr cross_encoder"
  shows "(bm25_file res = None \<longrightarrow>
            run_rag_pipeline q llm res
              = (case Chroma res of Inl e \<Rightarrow> Inl e | Inr r \<Rightarrow> Inl FileNotFoundError))
       \<and> (Chroma res = Inl e \<longrightarrow> run_rag_pipeline q llm res = Inl e)
       \<and> (Chroma res = Inr chroma_retriever \<and> chroma_retriever q = []
            \<and> bm25_file res = Some (Inr bm25_retriever) \<longrightarrow>
            hybrid_search q chroma_retriever bm25_retriever
              = map (\<lambda>t. last (with_text t (bm25_retriever q)))
                  (first_seen (map page_content (bm25_retriever q)))
            \<and> run_rag_pipeline q llm res
              = Inr (rag_chain q llm cross_encoder (\<lambda>q. []) bm25_retriever))"
proof (intro conjI impI)
  assume "bm25_file res = None"
  with assms show "run_rag_pipeline q llm res
      = (case Chroma res of Inl e \<Rightarrow> Inl e | Inr r \<Rightarrow> Inl FileNotFoundError)"
    by (simp add: run_rag_pipeline_def split: sum.splits)
next
  assume "Chroma res = Inl e"
  with assms show "run_rag_pipeline q llm res = Inl e"
    by (simp add: run_rag_pipeline_def)
next
  assume h: "Chroma res = Inr chroma_retriever \<and> chroma_retriever q = []
      \<and> bm25_file res = Some (Inr bm25_retriever)"
  then have "hybrid_search q chroma_retriever bm25_retriever
      = map (\<lambda>t. last (with_text t (chroma_retriever q @ bm25_retriever q)))
          (first_seen (map page_content (chroma_retriever q @ bm25_retriever q)))"
    by (simp only: hybrid_search_eq)
  with h show "hybrid_search q chroma_retriever bm25_retriever
      = map (\<lambda>t. last (with_text t (bm25_retriever q)))
          (first_seen (map page_content (bm25_retriever q)))"
    by simp
  from h have empty: "chroma_retriever q = []" by simp
  from assms h have "run_rag_pipeline q llm res
      = Inr (rag_chain q llm cross_encoder chroma_retriever bm25_retriever)"
    by (simp add: run_rag_pipeline_def)
  also have "rag_chain q llm cross_encoder chroma_retriever bm25_retriever
      = rag_chain q llm cross_encoder (\<lambda>q. []) bm25_retriever"
    using empty by (rule rag_chain_dense_empty)
  finally show "run_rag_pipeline q llm res
      = Inr (rag_chain q llm cross_encoder (\<lambda>q. []) bm25_retriever)" .
qed


text \<open>
  C7, witness: a built vector store with no BM25 file, where the call fails,
  and a vector store that was never built beside a BM25 index that finds two
  chunks, where the call answers from those two.
\<close>

theorem run_rag_pipeline_index_unavailable_witness:
  "run_rag_pipeline ''q'' (\<lambda>prompt. ''answer'')
      \<lparr>HuggingFaceEmbeddings = None, CrossEncoder = Inr (\<lambda>pairs. map (\<lambda>p. 0 :: int) pairs),
       Chroma = Inr (\<lambda>q. [\<lparr>page_content = ''dense'', metadata = []\<rparr>]),
       bm25_file = None\<rparr>
     = Inl FileNotFoundError
   \<and> (\<lambda>q. []) ''q'' = ([] :: chunk list)
   \<and> run_rag_pipeline ''q'' (\<lambda>prompt. ''answer'')
      \<lparr>HuggingFaceEmbeddings = None, CrossEncoder = Inr (\<lambda>pairs. map (\<lambda>p. 0 :: int) pairs),
       Chroma = Inr (\<lambda>q. []),
       bm25_file = Some (Inr (\<lambda>q. [\<lparr>page_content = ''s1'', metadata = []\<rparr>,
                                     \<lparr>page_content = ''s2'', metadata = []\<rparr>]))\<rparr>
     = Inr (''answer'',
            [Predict [(''q'', ''s1''), (''q'', ''s2'')],
             Complete (RAG_PROMPT (''s1'' @ [CHR 0x0A, CHR 0x0A] @ ''s2'') ''q'')])"
proof -
  let ?llm = "\<lambda>prompt :: string. ''answer''"
  let ?ce = "\<lambda>pairs :: (string \<times> string) list. map (\<lambda>p. 0 :: int) pairs"
  let ?dense = "\<lambda>q :: string. [\<lparr>page_content = ''dense'', metadata = []\<rparr>]"
  let ?none = "\<lambda>q :: string. ([] :: chunk list)"
  let ?sparse = "\<lambda>q :: string. [\<lparr>page_content = ''s1'', metadata = []\<rparr>,
                                 \<lparr>page_content = ''s2'', metadata = []\<rparr>]"
  let ?res1 = "\<lparr>HuggingFaceEmbeddings = None, CrossEncoder = Inr ?ce,
       Chroma = Inr ?dense, bm25_file = None\<rparr>"
  let ?res2 = "\<lparr>HuggingFaceEmbeddings = None, CrossEncoder = Inr ?ce,
       Chroma = Inr ?none, bm25_file = Some (Inr ?sparse)\<rparr>"
  have "run_rag_pipeline ''q'' ?llm ?res1 = Inl FileNotFoundError"
    using run_rag_pipeline_index_unavailable [of ?res1 ?ce "''q''" ?llm]
    by simp
  moreover have "run_rag_pipeline ''q'' ?llm ?res2 = Inr (rag_chain ''q'' ?llm ?ce ?none ?sparse)"
    using run_rag_pipeline_index_unavailable [of ?res2 ?ce "''q''" ?llm _ ?none ?sparse]
    by simp
  moreover have "rag_chain ''q'' ?llm ?ce ?none ?sparse
      = (''answer'',
            [Predict [(''q'', ''s1''), (''q'', ''s2'')],
             Complete (RAG_PROMPT (''s1'' @ [CHR 0x0A, CHR 0x0A] @ ''s2'') ''q'')])"
    by (simp add: rag_chain_def hybrid_search_def dict_values_def rerank_documents_def
        scored_docs_def py_sort_reverse_def format_docs_def)
  ultimately show ?thesis by simp
qed

text \<open>
  C7, counterexample to the claim as stated, one input for each index. With
  the BM25 index not built the call fails with the builtin
  \<open>FileNotFoundError\<close> of \<open>open\<close>: the source defines and raises no
  error of its own for a missing index. With the vector store not built, and
  opened empty by the constructor, the call does not fail at all: it answers
  from the one chunk that the BM25 index finds.
\<close>

theorem run_rag_pipeline_index_unavailable_counterexample:
  "run_rag_pipeline ''q'' (\<lambda>prompt. ''answer'')
      \<lparr>HuggingFaceEmbeddings = None, CrossEncoder = Inr (\<lambda>pairs. map (\<lambda>p. 0 :: int) pairs),
       Chroma = Inr (\<lambda>q. [\<lparr>page_content = ''a'', metadata = []\<rparr>]),
       bm25_file = None\<rparr>
     = Inl FileNotFoundError
   \<and> run_rag_pipeline ''q'' (\<lambda>prompt. ''answer'')
      \<lparr>HuggingFaceEmbeddings = None, CrossEncoder = Inr (\<lambda>pairs. map (\<lambda>p. 0 :: int) pairs),
       Chroma = Inr (\<lambda>q. []),
       bm25_file = Some (Inr (\<lambda>q. [\<lparr>page_content = ''only in bm25'', metadata = []\<rparr>]))\<rparr>
     = Inr (''answer'',
            [Predict [(''q'', ''only in bm25'')],
             Complete (RAG_PROMPT ''only in bm25'' ''q'')])"
  by (simp add: run_rag_pipeline_def rag_chain_def hybrid_search_def dict_values_def
      rerank_documents_def scored_docs_def py_sort_reverse_def format_docs_def)

lemma clear_indexes_eq:
  "clear_indexes fs0 = \<lparr>vectorstore = Some [], bm25_dir = True, bm25_index = None\<rparr>"
  by (cases fs0) (simp add: clear_indexes_def makedirs_vectorstore_def Let_def split: option.splits)

text \<open>
  C9. When no document is loaded from the corpus directory, or the splitter
  gives no chunk, \<open>run_ingestion\<close> returns without an exception and
  leaves the state that \<open>clear_indexes\<close> makes of any earlier one: an
  empty vector-store directory and no BM25 file.
\<close>

theorem run_ingestion_empty_is_cleared:
  assumes "load_documents (corpus_dir env) = []
         \<or> split_documents env (load_documents (corpus_dir env)) = []"
  shows "run_ingestion env fs0 = (None, clear_indexes fs0)
       \<and> clear_indexes fs0 = \<lparr>vectorstore = Some [], bm25_dir = True, bm25_index = None\<rparr>"
  using assms by (auto simp add: run_ingestion_def Let_def clear_indexes_eq)

text \<open>
  C9, witness: a corpus with a hidden file, a file of another extension and
  a PDF that fails to load, over indexes populated by an earlier run.
\<close>

theorem run_ingestion_empty_is_cleared_witness:
  "load_documents (Some [(''.hidden.txt'', Inr [\<lparr>page_content = ''h'', metadata = []\<rparr>]),
                         (''notes.md'', Inr [\<lparr>page_content = ''n'', metadata = []\<rparr>]),
                         (''scan.pdf'', Inl (LibraryError ''not a PDF''))]) = []
   \<and> run_ingestion
        \<lparr>corpus_dir = Some [(''.hidden.txt'', Inr [\<lparr>page_content = ''h'', metadata = []\<rparr>]),
                         (''notes.md'', Inr [\<lparr>page_content = ''n'', metadata = []\<rparr>]),
                         (''scan.pdf'', Inl (LibraryError ''not a PDF''))],
         text_splitter = (\<lambda>docs. docs), embeddings_init = None,
         chroma_from_documents = None, bm25_from_texts = None, pickle_dump = None\<rparr>
        \<lparr>vectorstore = Some [\<lparr>page_content = ''old'', metadata = []\<rparr>], bm25_dir = True,
         bm25_index = Some (Pickled [(''old'', [])])\<rparr>
      = (None, \<lparr>vectorstore = Some [], bm25_dir = True, bm25_index = None\<rparr>)"
proof -
  let ?corpus = "Some [(''.hidden.txt'', Inr [\<lparr>page_content = ''h'', metadata = []\<rparr>]),
                         (''notes.md'', Inr [\<lparr>page_content = ''n'', metadata = []\<rparr>]),
                         (''scan.pdf'', Inl (LibraryError ''not a PDF''))]"
  let ?env = "\<lparr>corpus_dir = ?corpus,
         text_splitter = (\<lambda>docs. docs), embeddings_init = None,
         chroma_from_documents = None, bm25_from_texts = None, pickle_dump = None\<rparr>"
  have h: "load_documents ?corpus = []"
    by (simp add: load_documents_def suffix_to_prefix)
  then have "load_documents (corpus_dir ?env) = []
         \<or> split_documents ?env (load_documents (corpus_dir ?env)) = []"
    by simp
  from run_ingestion_empty_is_cleared [OF this] h
  show ?thesis by simp
qed

end
